theory Spec2Isabelle
  imports Complex_Main "HOL-Library.AList"
begin

section \<open>Values, errors and dictionaries\<close>

text \<open>
  The analyzer (\<open>main.py\<close>) reads match records, one \<open>Key: Value\<close> pair per line, derives a few
  extra fields, scores the record against a table of tiers and appends one row per record to a
  CSV table. The embedding follows the Python text function by function.

  A value stored in a record is a Python \<open>bool\<close>, \<open>float\<close>, \<open>int\<close> or \<open>str\<close>. Floats are
  modelled by real numbers: arithmetic is exact, and the non-finite floats (\<open>inf\<close>, \<open>nan\<close>) have
  no counterpart. Strings are lists of 8-bit characters (the code points below 256).
\<close>

datatype val = VBool bool | VFloat real | VInt int | VStr string

datatype error =
  AttributeError | TypeError | ValueError | KeyError | ZeroDivisionError | StopIteration

text \<open>
  A Python \<open>dict\<close> keeps its keys in insertion order, and assigning to a key that is already
  there replaces the value in place. This is an association list with distinct keys, read with
  \<^const>\<open>map_of\<close> and written with \<^const>\<open>AList.update\<close>.
\<close>

type_synonym 'v dict = "(string \<times> 'v) list"

definition has_key :: "'v dict \<Rightarrow> string \<Rightarrow> bool" where
  "has_key d k \<longleftrightarrow> map_of d k \<noteq> None"

section \<open>String operations of the Python library\<close>

text \<open>\<open>str.isspace\<close> on the code points below 256, as used by \<open>str.strip()\<close>.\<close>

definition is_space :: "char \<Rightarrow> bool" where
  "is_space c \<longleftrightarrow>
     (let n = (of_char c :: nat)
      in (9 \<le> n \<and> n \<le> 13) \<or> (28 \<le> n \<and> n \<le> 32) \<or> n = 133 \<or> n = 160)"

definition strip :: "string \<Rightarrow> string" where
  "strip s = rev (dropWhile is_space (rev (dropWhile is_space s)))"

text \<open>\<open>str.lower()\<close> on the code points below 256.\<close>

definition lower_char :: "char \<Rightarrow> char" where
  "lower_char c =
     (let n = (of_char c :: nat)
      in if (65 \<le> n \<and> n \<le> 90) \<or> (192 \<le> n \<and> n \<le> 214) \<or> (216 \<le> n \<and> n \<le> 222)
         then char_of (n + 32) else c)"

definition lower :: "string \<Rightarrow> string" where
  "lower s = map lower_char s"

definition is_digit :: "char \<Rightarrow> bool" where
  "is_digit c \<longleftrightarrow> (48::nat) \<le> of_char c \<and> (of_char c :: nat) \<le> 57"

definition digit_val :: "char \<Rightarrow> nat" where
  "digit_val c = of_char c - 48"

definition nat_of_digits :: "string \<Rightarrow> nat" where
  "nat_of_digits ds = foldl (\<lambda>a c. 10 * a + digit_val c) 0 ds"

text \<open>
  The numeric literals accepted by \<open>float(str)\<close> and \<open>int(str)\<close> share the production
  \<open>digitpart ::= digit (["_"] digit)*\<close>. \<open>digitpart_tail\<close> reads \<open>(["_"] digit)*\<close> and returns
  the digits read (underscores dropped) with the unread rest.
\<close>

fun digitpart_tail :: "string \<Rightarrow> string \<times> string" where
  "digitpart_tail [] = ([], [])"
| "digitpart_tail (c # cs) =
     (if is_digit c then (case digitpart_tail cs of (ds, r) \<Rightarrow> (c # ds, r))
      else if c = CHR ''_'' then
        (case cs of
           [] \<Rightarrow> ([], c # cs)
         | d # cs' \<Rightarrow>
             if is_digit d then (case digitpart_tail cs' of (ds, r) \<Rightarrow> (d # ds, r))
             else ([], c # cs))
      else ([], c # cs))"

definition digitpart :: "string \<Rightarrow> (string \<times> string) option" where
  "digitpart s =
     (case s of
        [] \<Rightarrow> None
      | c # cs \<Rightarrow>
          if is_digit c then (case digitpart_tail cs of (ds, r) \<Rightarrow> Some (c # ds, r))
          else None)"

text \<open>An optional sign: whether it is a minus, and the rest.\<close>

definition opt_sign :: "string \<Rightarrow> bool \<times> string" where
  "opt_sign s =
     (case s of
        [] \<Rightarrow> (False, s)
      | c # r \<Rightarrow>
          if c = CHR ''-'' then (True, r) else if c = CHR ''+'' then (False, r) else (False, s))"

text \<open>
  \<open>int(s)\<close> for a string, base 10: surrounding whitespace, an optional sign, one digitpart.
  \<open>None\<close> stands for the \<open>ValueError\<close> of a string that is no integer literal.
\<close>

definition py_int :: "string \<Rightarrow> int option" where
  "py_int s =
     (case opt_sign (strip s) of
        (neg, u) \<Rightarrow>
          (case digitpart u of
             None \<Rightarrow> None
           | Some (ds, r) \<Rightarrow>
               if r = [] then Some (if neg then - int (nat_of_digits ds) else int (nat_of_digits ds))
               else None))"

text \<open>
  \<open>number ::= [digitpart] "." digitpart | digitpart ["."]\<close>: the digits before and after the
  point, and the rest.
\<close>

definition float_mantissa :: "string \<Rightarrow> (string \<times> string \<times> string) option" where
  "float_mantissa s =
     (case digitpart s of
        Some (ip, r) \<Rightarrow>
          (case r of
             [] \<Rightarrow> Some (ip, [], r)
           | c # r' \<Rightarrow>
               if c = CHR ''.'' then
                 (case digitpart r' of
                    Some (fp, r'') \<Rightarrow> Some (ip, fp, r'')
                  | None \<Rightarrow> Some (ip, [], r'))
               else Some (ip, [], r))
      | None \<Rightarrow>
          (case s of
             [] \<Rightarrow> None
           | c # r' \<Rightarrow>
               if c = CHR ''.'' then
                 (case digitpart r' of
                    Some (fp, r'') \<Rightarrow> Some ([], fp, r'')
                  | None \<Rightarrow> None)
               else None))"

text \<open>\<open>exponent ::= ("e" | "E") [sign] digitpart\<close>, read to the end of the string.\<close>

definition float_exponent :: "string \<Rightarrow> int option" where
  "float_exponent s =
     (case s of
        [] \<Rightarrow> Some 0
      | c # r \<Rightarrow>
          if c = CHR ''e'' \<or> c = CHR ''E'' then
            (case opt_sign r of
               (neg, u) \<Rightarrow>
                 (case digitpart u of
                    None \<Rightarrow> None
                  | Some (ds, r') \<Rightarrow>
                      if r' = [] then
                        Some (if neg then - int (nat_of_digits ds) else int (nat_of_digits ds))
                      else None))
          else None)"

definition decimal_value :: "string \<Rightarrow> string \<Rightarrow> int \<Rightarrow> real" where
  "decimal_value ip fp e =
     (let m = real (nat_of_digits ip) + real (nat_of_digits fp) / 10 ^ length fp
      in if 0 \<le> e then m * 10 ^ nat e else m / 10 ^ nat (- e))"

text \<open>
  \<open>float(s)\<close> for a string: surrounding whitespace, an optional sign, a decimal number with an
  optional exponent. \<open>None\<close> stands for the \<open>ValueError\<close> of any other string. The spellings of
  the non-finite floats (\<open>inf\<close>, \<open>infinity\<close>, \<open>nan\<close>) denote no real number and are not read.
\<close>

definition py_float :: "string \<Rightarrow> real option" where
  "py_float s =
     (case opt_sign (strip s) of
        (neg, u) \<Rightarrow>
          (case float_mantissa u of
             None \<Rightarrow> None
           | Some (ip, fp, r) \<Rightarrow>
               (case float_exponent r of
                  None \<Rightarrow> None
                | Some e \<Rightarrow>
                    Some (if neg then - decimal_value ip fp e else decimal_value ip fp e))))"

section \<open>The record parser\<close>

text \<open>
  \<open>Parser.parse_value\<close>: \<open>true\<close> and \<open>false\<close> in any case become booleans, a string that
  \<open>float\<close> accepts becomes that number, every other string is kept.
\<close>

definition parse_value :: "string \<Rightarrow> val" where
  "parse_value v =
     (if lower v = ''true'' \<or> lower v = ''false'' then VBool (lower v = ''true'')
      else (case py_float v of Some x \<Rightarrow> VFloat x | None \<Rightarrow> VStr v))"

definition newline :: char where
  "newline = CHR 0x0A"

text \<open>
  \<open>Parser.parse_line\<close> matches the line against \<open>^([^:]+): (.+)$\<close>. The first group cannot hold a
  colon and is followed by one, so it is the text before the first colon and must not be empty;
  a colon and a space follow; the second group is one or more characters other than a newline
  and reaches the end of the line or the newline that ends it. A line that does not match gives
  \<open>None\<close> (Python: the pair \<open>(None, None)\<close>).
\<close>

definition parse_line :: "string \<Rightarrow> (string \<times> val) option" where
  "parse_line line =
     (let k = takeWhile (\<lambda>c. c \<noteq> CHR '':'') line;
          r = dropWhile (\<lambda>c. c \<noteq> CHR '':'') line
      in if k = [] then None
         else (case r of
                 c1 # c2 # v \<Rightarrow>
                   if c2 = CHR '' '' then
                     (let body = (if v \<noteq> [] \<and> last v = newline then butlast v else v)
                      in if body \<noteq> [] \<and> newline \<notin> set body
                         then Some (strip k, parse_value (strip body))
                         else None)
                   else None
               | _ \<Rightarrow> None))"


text \<open>
  \<open>re.search(r"\((\d+(?:\.\d+)?)%\)", s)\<close>. \<open>match_pct\<close> matches the pattern at the head of
  the string and returns group 1: an opening bracket, the longest run of digits (not empty),
  then either \<open>%)\<close>, or a point, the longest run of digits (not empty) and \<open>%)\<close>. A shorter
  run of digits is followed by a digit, so backtracking finds no other match.
  \<open>search_pct\<close> tries every position from the left.
\<close>

definition match_pct :: "string \<Rightarrow> string option" where
  "match_pct s =
     (case s of
        [] \<Rightarrow> None
      | c # r \<Rightarrow>
          if c \<noteq> CHR ''('' then None
          else (let d1 = takeWhile is_digit r; r1 = dropWhile is_digit r
                in if d1 = [] then None
                   else if take 2 r1 = ''%)'' then Some d1
                   else (case r1 of
                           [] \<Rightarrow> None
                         | x # r2 \<Rightarrow>
                             if x = CHR ''.'' then
                               (let d2 = takeWhile is_digit r2; r3 = dropWhile is_digit r2
                                in if d2 \<noteq> [] \<and> take 2 r3 = ''%)''
                                   then Some (d1 @ ''.'' @ d2) else None)
                             else None)))"

fun search_pct :: "string \<Rightarrow> string option" where
  "search_pct [] = None"
| "search_pct (c # cs) =
     (case match_pct (c # cs) of Some g \<Rightarrow> Some g | None \<Rightarrow> search_pct cs)"

text \<open>\<open>str.split(sep)\<close> for a separator of one character.\<close>

fun split_on :: "char \<Rightarrow> string \<Rightarrow> string list" where
  "split_on sep [] = [[]]"
| "split_on sep (c # cs) =
     (if c = sep then [] # split_on sep cs
      else (case split_on sep cs of [] \<Rightarrow> [[c]] | p # ps \<Rightarrow> (c # p) # ps))"

text \<open>
  \<open>Parser.parse_special_key\<close>, on the record built so far. For \<open>Headshot\<close>, \<open>re.search\<close> raises
  \<open>TypeError\<close> on a value that is no string, \<open>.group\<close> on the \<open>None\<close> of a failed search raises
  \<open>AttributeError\<close>. For \<open>Score\<close>, a value that is no string has no \<open>split\<close>
  (\<open>AttributeError\<close>), unpacking anything but two parts and \<open>int\<close> of a part that is no integer
  raise \<open>ValueError\<close>.
\<close>

definition parse_special_key :: "val dict \<Rightarrow> string \<Rightarrow> val \<Rightarrow> error + val dict" where
  "parse_special_key d key v =
     (if key = ''Headshot'' then
        (case v of
           VStr s \<Rightarrow>
             (case search_pct s of
                None \<Rightarrow> Inl AttributeError
              | Some g \<Rightarrow>
                  (case py_float g of
                     None \<Rightarrow> Inl ValueError
                   | Some x \<Rightarrow> Inr (AList.update ''Headshot %'' (VFloat x) d)))
         | _ \<Rightarrow> Inl TypeError)
      else if key = ''Score'' then
        (case v of
           VStr s \<Rightarrow>
             (case split_on CHR ''-'' s of
                [home_rounds, away_rounds] \<Rightarrow>
                  (case py_int home_rounds of
                     None \<Rightarrow> Inl ValueError
                   | Some h \<Rightarrow>
                       (case py_int away_rounds of
                          None \<Rightarrow> Inl ValueError
                        | Some a \<Rightarrow> Inr (AList.update ''Round Differential'' (VInt (h - a)) d)))
              | _ \<Rightarrow> Inl ValueError)
         | _ \<Rightarrow> Inl AttributeError)
      else Inr d)"

text \<open>
  One turn of the loop of \<open>Parser.parse\<close>: a line that does not match, or whose key is empty
  after stripping, is passed over; otherwise the special keys are handled first, and the value
  is stored under the key unless the key is already there.
\<close>

definition parse_step :: "val dict \<Rightarrow> string \<Rightarrow> error + val dict" where
  "parse_step d line =
     (case parse_line line of
        None \<Rightarrow> Inr d
      | Some (key, v) \<Rightarrow>
          if key = [] then Inr d
          else (case parse_special_key d key v of
                  Inl e \<Rightarrow> Inl e
                | Inr d' \<Rightarrow> Inr (if has_key d' key then d' else AList.update key v d')))"

fun parse_lines :: "val dict \<Rightarrow> string list \<Rightarrow> error + val dict" where
  "parse_lines d [] = Inr d"
| "parse_lines d (line # lines) =
     (case parse_step d line of Inl e \<Rightarrow> Inl e | Inr d' \<Rightarrow> parse_lines d' lines)"

section \<open>The metrics deriver\<close>

text \<open>\<open>int(v)\<close>: a float is truncated towards zero, a string is read as an integer literal.\<close>

definition int_of_val :: "val \<Rightarrow> error + int" where
  "int_of_val v =
     (case v of
        VBool b \<Rightarrow> Inr (if b then 1 else 0)
      | VFloat x \<Rightarrow> Inr (if 0 \<le> x then \<lfloor>x\<rfloor> else \<lceil>x\<rceil>)
      | VInt n \<Rightarrow> Inr n
      | VStr s \<Rightarrow> (case py_int s of None \<Rightarrow> Inl ValueError | Some n \<Rightarrow> Inr n))"

text \<open>\<open>v != 0\<close>: \<open>False\<close> equals 0, a string never does.\<close>

definition ne_zero :: "val \<Rightarrow> bool" where
  "ne_zero v =
     (case v of VBool b \<Rightarrow> b | VFloat x \<Rightarrow> x \<noteq> 0 | VInt n \<Rightarrow> n \<noteq> 0 | VStr s \<Rightarrow> True)"

definition num_of_val :: "val \<Rightarrow> real option" where
  "num_of_val v =
     (case v of
        VBool b \<Rightarrow> Some (if b then 1 else 0)
      | VFloat x \<Rightarrow> Some x
      | VInt n \<Rightarrow> Some (real_of_int n)
      | VStr s \<Rightarrow> None)"

text \<open>\<open>a / b\<close>: true division of two numbers is a float; a string operand is a \<open>TypeError\<close>.\<close>

definition true_div :: "val \<Rightarrow> val \<Rightarrow> error + val" where
  "true_div a b =
     (case (num_of_val a, num_of_val b) of
        (Some x, Some y) \<Rightarrow> if y = 0 then Inl ZeroDivisionError else Inr (VFloat (x / y))
      | _ \<Rightarrow> Inl TypeError)"

text \<open>The two statements of \<open>Parser.calculate_additional_metrics\<close>, in order.\<close>

definition derive_length :: "val dict \<Rightarrow> error + val dict" where
  "derive_length d =
     (case (map_of d ''Start Time (UNIX)'', map_of d ''End Time (UNIX)'') of
        (Some s, Some e) \<Rightarrow>
          (case int_of_val e of
             Inl x \<Rightarrow> Inl x
           | Inr ei \<Rightarrow>
               (case int_of_val s of
                  Inl x \<Rightarrow> Inl x
                | Inr si \<Rightarrow> Inr (AList.update ''Length'' (VInt (ei - si)) d)))
      | _ \<Rightarrow> Inr d)"

definition derive_damage_ratio :: "val dict \<Rightarrow> error + val dict" where
  "derive_damage_ratio d =
     (case (map_of d ''Damage Made'', map_of d ''Damage Received'') of
        (Some m, Some r) \<Rightarrow>
          if ne_zero r then
            (case true_div m r of
               Inl x \<Rightarrow> Inl x
             | Inr q \<Rightarrow> Inr (AList.update ''Damage Ratio'' q d))
          else Inr d
      | _ \<Rightarrow> Inr d)"

definition calculate_additional_metrics :: "val dict \<Rightarrow> error + val dict" where
  "calculate_additional_metrics d =
     (case derive_length d of Inl x \<Rightarrow> Inl x | Inr d' \<Rightarrow> derive_damage_ratio d')"

text \<open>\<open>Parser.parse\<close> on the lines of the file, as iterating over the open file yields them.\<close>

definition parse :: "string list \<Rightarrow> error + val dict" where
  "parse lines =
     (case parse_lines [] lines of Inl e \<Rightarrow> Inl e | Inr d \<Rightarrow> calculate_additional_metrics d)"

section \<open>The scorer\<close>

type_synonym tier = "real \<times> real"
type_synonym weights = "tier list dict"

definition py_div :: "real \<Rightarrow> real \<Rightarrow> error + real" where
  "py_div a b = (if b = 0 then Inl ZeroDivisionError else Inr (a / b))"

definition calculate_interpolated_bonus ::
    "real \<Rightarrow> real \<Rightarrow> real \<Rightarrow> real \<Rightarrow> real \<Rightarrow> error + real" where
  "calculate_interpolated_bonus v lower_bound upper_bound lower_bonus upper_bonus =
     (if lower_bound = upper_bound then Inr lower_bonus
      else (case py_div (v - lower_bound) (upper_bound - lower_bound) of
              Inl e \<Rightarrow> Inl e
            | Inr q \<Rightarrow> Inr (lower_bonus + (upper_bonus - lower_bonus) * q)))"

text \<open>\<open>float(v)\<close>.\<close>

definition float_of_val :: "val \<Rightarrow> error + real" where
  "float_of_val v =
     (case v of
        VBool b \<Rightarrow> Inr (if b then 1 else 0)
      | VFloat x \<Rightarrow> Inr x
      | VInt n \<Rightarrow> Inr (real_of_int n)
      | VStr s \<Rightarrow> (case py_float s of None \<Rightarrow> Inl ValueError | Some x \<Rightarrow> Inr x))"

text \<open>
  An entry of \<open>score_breakdown\<close>. The Python text is a formatted string; the entry keeps what
  the string is formatted from: metric, metric value and bonus for an interpolated bonus, and
  metric, metric value, target and bonus for the flat bonus of the top tier.
\<close>

datatype breakdown = Interpolated string real real | TopTier string real real real

text \<open>
  The inner loop of \<open>calculate_score\<close> over the sorted tiers, from index \<open>i\<close>: the bonus and
  the breakdown entry of the metric, or \<open>None\<close> when the loop ends without awarding one.
  \<open>i + 1 < len(sorted_tiers)\<close> holds exactly when a tier follows.
\<close>

fun scan_tiers ::
    "string \<Rightarrow> real \<Rightarrow> nat \<Rightarrow> tier list \<Rightarrow> error + (real \<times> breakdown) option" where
  "scan_tiers metric mv i [] = Inr None"
| "scan_tiers metric mv i ((target, bonus) # rest) =
     (if mv \<ge> target then
        (case rest of
           [] \<Rightarrow> Inr (Some (bonus, TopTier metric mv target bonus))
         | (next_target, next_bonus) # _ \<Rightarrow>
             if mv < next_target then
               (case calculate_interpolated_bonus mv target next_target bonus next_bonus of
                  Inl e \<Rightarrow> Inl e
                | Inr ib \<Rightarrow> Inr (Some (ib, Interpolated metric mv ib)))
             else scan_tiers metric mv (i + 1) rest)
      else if i = 0 \<and> mv < target then Inr None
      else scan_tiers metric mv (i + 1) rest)"

text \<open>
  The body of the outer loop for one metric: \<open>data.get(metric, 0)\<close>, \<open>float\<close>, the stable sort
  of the tiers by target, the scan.
\<close>

definition score_metric ::
    "val dict \<Rightarrow> string \<Rightarrow> tier list \<Rightarrow> error + (real \<times> breakdown) option" where
  "score_metric data metric tiers =
     (case float_of_val (case map_of data metric of None \<Rightarrow> VInt 0 | Some v \<Rightarrow> v) of
        Inl e \<Rightarrow> Inl e
      | Inr mv \<Rightarrow> scan_tiers metric mv 0 (sort_key fst tiers))"

fun score_loop ::
    "val dict \<Rightarrow> weights \<Rightarrow> real \<Rightarrow> breakdown list \<Rightarrow> error + real \<times> breakdown list" where
  "score_loop data [] score bd = Inr (score, bd)"
| "score_loop data ((metric, tiers) # ws) score bd =
     (case score_metric data metric tiers of
        Inl e \<Rightarrow> Inl e
      | Inr None \<Rightarrow> score_loop data ws score bd
      | Inr (Some (b, entry)) \<Rightarrow> score_loop data ws (score + b) (bd @ [entry]))"

text \<open>\<open>round(x, 2)\<close> on an exact number: to the nearest hundredth, a tie to the even one.\<close>

definition round2 :: "real \<Rightarrow> real" where
  "round2 x =
     (let y = x * 100; f = \<lfloor>y\<rfloor>; r = y - real_of_int f
      in real_of_int (if r < 1 / 2 then f else if 1 / 2 < r then f + 1
                      else if even f then f else f + 1) / 100)"

definition calculate_score :: "val dict \<Rightarrow> weights \<Rightarrow> error + real \<times> breakdown list" where
  "calculate_score data ws =
     (case score_loop data ws 0 [] of
        Inl e \<Rightarrow> Inl e
      | Inr (score, bd) \<Rightarrow> Inr (round2 score, bd))"


section \<open>Notions used to state the properties\<close>

text \<open>
  The values that the lines of a file give for a key, in the order of the lines: the typed
  value of every line that matches \<open><key>: <value>\<close> with that key.
\<close>

definition line_value :: "string \<Rightarrow> string \<Rightarrow> val option" where
  "line_value key line =
     (case parse_line line of
        None \<Rightarrow> None
      | Some (k, v) \<Rightarrow> if k = key then Some v else None)"

definition line_values :: "string \<Rightarrow> string list \<Rightarrow> val list" where
  "line_values key lines = List.map_filter (line_value key) lines"

text \<open>A run of digits that is not empty.\<close>

definition digits :: "string \<Rightarrow> bool" where
  "digits ds \<longleftrightarrow> ds \<noteq> [] \<and> list_all is_digit ds"

text \<open>
  The text between the bracket and the percent sign of the pattern \<open>(37.5%)\<close>: digits, or
  digits, a point and digits; and the number it denotes.
\<close>

definition pct_literal :: "string \<Rightarrow> bool" where
  "pct_literal g =
     (case dropWhile is_digit g of
        [] \<Rightarrow> digits g
      | c # d2 \<Rightarrow> c = CHR ''.'' \<and> digits (takeWhile is_digit g) \<and> digits d2)"

definition pct_value :: "string \<Rightarrow> real" where
  "pct_value g = decimal_value (takeWhile is_digit g) (drop 1 (dropWhile is_digit g)) 0"

text \<open>
  What a line \<open>Headshot: v\<close> assigns to \<open>Headshot %\<close>, and a line \<open>Score: v\<close> to
  \<open>Round Differential\<close>, when the line raises no error.
\<close>

definition headshot_pct :: "val \<Rightarrow> val option" where
  "headshot_pct v =
     (case v of
        VStr s \<Rightarrow> (case search_pct s of None \<Rightarrow> None | Some g \<Rightarrow> map_option VFloat (py_float g))
      | _ \<Rightarrow> None)"

definition round_differential :: "val \<Rightarrow> val option" where
  "round_differential v =
     (case v of
        VStr s \<Rightarrow>
          (case split_on CHR ''-'' s of
             [home_rounds, away_rounds] \<Rightarrow>
               (case (py_int home_rounds, py_int away_rounds) of
                  (Some h, Some a) \<Rightarrow> Some (VInt (h - a))
                | _ \<Rightarrow> None)
           | _ \<Rightarrow> None)
      | _ \<Rightarrow> None)"

text \<open>The characters of a decimal literal, and a rest at which a run of digits ends.\<close>

definition float_char :: "char \<Rightarrow> bool" where
  "float_char c \<longleftrightarrow> is_digit c \<or> c \<in> set ''._eE+-''"

definition stops_digits :: "string \<Rightarrow> bool" where
  "stops_digits r = (case r of [] \<Rightarrow> True | c # _ \<Rightarrow> \<not> is_digit c \<and> c \<noteq> CHR ''_'')"

text \<open>Truncation towards zero, as \<open>int\<close> does on a float.\<close>

definition trunc :: "real \<Rightarrow> int" where
  "trunc x = (if 0 \<le> x then \<lfloor>x\<rfloor> else \<lceil>x\<rceil>)"

section \<open>Numeric literals\<close>

lemma is_digit_not_space: "is_digit c \<Longrightarrow> \<not> is_space c"
  by (auto simp add: is_digit_def is_space_def Let_def)

lemma strip_id:
  assumes "s \<noteq> []" "\<not> is_space (hd s)" "\<not> is_space (last s)"
  shows "strip s = s"
proof -
  have a: "dropWhile is_space s = s" using assms(1,2) by (cases s) auto
  obtain x xs where r: "rev s = x # xs" using assms(1) by (cases "rev s") auto
  have "x = last s" using r assms(1) by (metis hd_rev list.sel(1))
  then have d: "dropWhile is_space (x # xs) = x # xs" using assms(3) by simp
  have "dropWhile is_space (rev s) = rev s" unfolding r by (rule d)
  then show ?thesis using a by (simp add: strip_def)
qed

lemma dropWhile_keeps: "x \<in> set xs \<Longrightarrow> \<not> P x \<Longrightarrow> x \<in> set (dropWhile P xs)"
  by (induction xs) auto

lemma strip_keeps: "c \<in> set s \<Longrightarrow> \<not> is_space c \<Longrightarrow> c \<in> set (strip s)"
  by (simp add: strip_def dropWhile_keeps)

lemma set_strip_subset: "set (strip s) \<subseteq> set s"
proof -
  have "set (dropWhile is_space (rev (dropWhile is_space s))) \<subseteq> set (rev (dropWhile is_space s))"
    by (meson set_dropWhileD subsetI)
  also have "\<dots> \<subseteq> set s" using set_dropWhileD by fastforce
  finally show ?thesis by (simp add: strip_def)
qed

lemma digitpart_tail_digits:
  "\<forall>c \<in> set ds. is_digit c \<Longrightarrow> stops_digits r \<Longrightarrow> digitpart_tail (ds @ r) = (ds, r)"
proof (induction ds)
  case Nil
  then show ?case by (cases r) (auto simp: stops_digits_def)
next
  case (Cons d ds)
  then show ?case by simp
qed

lemma digitpart_digits:
  "ds \<noteq> [] \<Longrightarrow> \<forall>c \<in> set ds. is_digit c \<Longrightarrow> stops_digits r \<Longrightarrow>
   digitpart (ds @ r) = Some (ds, r)"
  by (cases ds) (auto simp: digitpart_def digitpart_tail_digits)

lemma py_float_digits:
  assumes "d1 \<noteq> []" "\<forall>c \<in> set d1. is_digit c"
  shows "py_float d1 = Some (real (nat_of_digits d1))"
proof -
  have sp: "\<not> is_space (hd d1)" "\<not> is_space (last d1)"
    using assms is_digit_not_space by auto
  have st: "strip d1 = d1" using strip_id[OF assms(1) sp] .
  have sg: "opt_sign d1 = (False, d1)"
    using assms by (cases d1) (auto simp: opt_sign_def is_digit_def)
  have dp: "digitpart d1 = Some (d1, [])"
    using digitpart_digits[OF assms, of "[]"] by (simp add: stops_digits_def)
  show ?thesis
    by (simp add: py_float_def st sg float_mantissa_def dp float_exponent_def decimal_value_def
        nat_of_digits_def)
qed

lemma py_float_digits_point:
  assumes "d1 \<noteq> []" "\<forall>c \<in> set d1. is_digit c" "d2 \<noteq> []" "\<forall>c \<in> set d2. is_digit c"
  shows "py_float (d1 @ CHR ''.'' # d2) = Some (decimal_value d1 d2 0)"
proof -
  let ?g = "d1 @ CHR ''.'' # d2"
  have "hd ?g = hd d1" "last ?g = last d2" using assms by auto
  then have sp: "\<not> is_space (hd ?g)" "\<not> is_space (last ?g)"
    using assms is_digit_not_space by auto
  have st: "strip ?g = ?g" using strip_id[OF _ sp] by simp
  have sg: "opt_sign ?g = (False, ?g)"
    using assms by (cases d1) (auto simp: opt_sign_def is_digit_def)
  have dp1: "digitpart ?g = Some (d1, CHR ''.'' # d2)"
    using digitpart_digits[OF assms(1,2), of "CHR ''.'' # d2"]
    by (simp add: stops_digits_def is_digit_def)
  have dp2: "digitpart d2 = Some (d2, [])"
    using digitpart_digits[OF assms(3,4), of "[]"] by (simp add: stops_digits_def)
  show ?thesis
    by (simp add: py_float_def st sg float_mantissa_def float_exponent_def dp1 dp2)
qed

lemma digitpart_tail_consumes:
  "digitpart_tail s = (ds, r) \<Longrightarrow> \<exists>u. s = u @ r \<and> (\<forall>c \<in> set u. float_char c)"
proof (induction s arbitrary: ds r rule: digitpart_tail.induct)
  case 1
  then show ?case by simp
next
  case (2 c cs)
  show ?case
  proof (cases "is_digit c")
    case True
    obtain ds' r' where t: "digitpart_tail cs = (ds', r')" by (cases "digitpart_tail cs")
    then obtain u where "cs = u @ r'" "\<forall>c \<in> set u. float_char c" using "2.IH"(1) True by blast
    moreover have "r = r'" using "2.prems" True t by simp
    ultimately have "c # cs = (c # u) @ r \<and> (\<forall>x \<in> set (c # u). float_char x)"
      using True by (simp add: float_char_def)
    then show ?thesis by blast
  next
    case False
    note nd = False
    show ?thesis
    proof (cases "c = CHR ''_'' \<and> cs \<noteq> [] \<and> is_digit (hd cs)")
      case True
      then obtain d cs' where cs: "cs = d # cs'" "is_digit d" by (cases cs) auto
      obtain ds' r' where t: "digitpart_tail cs' = (ds', r')" by (cases "digitpart_tail cs'")
      then obtain u where u: "cs' = u @ r'" "\<forall>c \<in> set u. float_char c"
        using "2.IH"(2)[of d cs'] nd True cs by blast
      have "r = r'" using "2.prems" nd True cs t by simp
      then have "c # cs = (c # d # u) @ r \<and> (\<forall>x \<in> set (c # d # u). float_char x)"
        using u cs True by (simp add: float_char_def)
      then show ?thesis by blast
    next
      case False
      then have "r = c # cs" using "2.prems" nd by (auto split: list.splits if_splits)
      then have "c # cs = [] @ r \<and> (\<forall>x \<in> set []. float_char x)" by simp
      then show ?thesis by blast
    qed
  qed
qed

lemma digitpart_consumes:
  "digitpart s = Some (ds, r) \<Longrightarrow> \<exists>u. s = u @ r \<and> (\<forall>c \<in> set u. float_char c)"
proof -
  assume a: "digitpart s = Some (ds, r)"
  then obtain c cs where s: "s = c # cs" "is_digit c" 
    by (cases s) (auto simp: digitpart_def split: if_splits)
  obtain ds' r' where t: "digitpart_tail cs = (ds', r')" by (cases "digitpart_tail cs")
  then have "r = r'" using a s by (simp add: digitpart_def)
  moreover obtain u where "cs = u @ r'" "\<forall>c \<in> set u. float_char c"
    using digitpart_tail_consumes[OF t] by blast
  ultimately have "s = (c # u) @ r \<and> (\<forall>x \<in> set (c # u). float_char x)"
    using s by (simp add: float_char_def)
  then show ?thesis by blast
qed

lemma opt_sign_consumes:
  "opt_sign s = (neg, r) \<Longrightarrow> \<exists>u. s = u @ r \<and> (\<forall>c \<in> set u. float_char c)"
proof -
  assume a: "opt_sign s = (neg, r)"
  then have "s = [] @ r \<or> s = ''-'' @ r \<or> s = ''+'' @ r"
    by (cases s) (auto simp: opt_sign_def split: if_splits)
  then show ?thesis by (auto simp: float_char_def intro: exI[of _ "[]"] exI[of _ "''-''"] exI[of _ "''+''"])
qed


lemma float_mantissa_consumes:
  assumes "float_mantissa s = Some (ip, fp, r)"
  shows "\<exists>u. s = u @ r \<and> (\<forall>c \<in> set u. float_char c)"
proof (cases "digitpart s")
  case None
  then obtain r' where s: "s = CHR ''.'' # r'" and d: "digitpart r' = Some (fp, r)"
    using assms by (auto simp: float_mantissa_def split: list.splits if_splits option.splits)
  obtain u where "r' = u @ r" "\<forall>c \<in> set u. float_char c" using digitpart_consumes[OF d] by blast
  then have "s = (CHR ''.'' # u) @ r \<and> (\<forall>x \<in> set (CHR ''.'' # u). float_char x)"
    using s by (simp add: float_char_def)
  then show ?thesis by blast
next
  case (Some p)
  obtain ip' r1 where p: "p = (ip', r1)" by (cases p)
  obtain u1 where u1: "s = u1 @ r1" "\<forall>c \<in> set u1. float_char c"
    using digitpart_consumes Some p by blast
  show ?thesis
  proof (cases "r1 \<noteq> [] \<and> hd r1 = CHR ''.''")
    case False
    then have "r = r1" using assms Some p
      by (auto simp: float_mantissa_def split: list.splits if_splits option.splits)
    then show ?thesis using u1 by blast
  next
    case True
    then obtain r' where r1: "r1 = CHR ''.'' # r'" by (cases r1) auto
    show ?thesis
    proof (cases "digitpart r'")
      case None
      then have "r = r'" using assms Some p r1 by (simp add: float_mantissa_def)
      then have "s = (u1 @ ''.'') @ r \<and> (\<forall>x \<in> set (u1 @ ''.''). float_char x)"
        using u1 r1 by (simp add: float_char_def)
      then show ?thesis by blast
    next
      case (Some q)
      obtain fp' r2 where q: "q = (fp', r2)" by (cases q)
      then have "r = r2" using assms \<open>digitpart s = Some p\<close> p r1 Some
        by (simp add: float_mantissa_def)
      moreover obtain u2 where "r' = u2 @ r2" "\<forall>c \<in> set u2. float_char c"
        using digitpart_consumes Some q by blast
      ultimately have "s = (u1 @ ''.'' @ u2) @ r \<and> (\<forall>x \<in> set (u1 @ ''.'' @ u2). float_char x)"
        using u1 r1 by (auto simp add: float_char_def)
      then show ?thesis by blast
    qed
  qed
qed

lemma float_exponent_chars:
  assumes "float_exponent s = Some e"
  shows "\<forall>c \<in> set s. float_char c"
proof (cases s)
  case Nil
  then show ?thesis by simp
next
  case (Cons c r)
  then have c: "c = CHR ''e'' \<or> c = CHR ''E''"
    using assms by (auto simp: float_exponent_def split: if_splits)
  obtain neg u where sg: "opt_sign r = (neg, u)" by (cases "opt_sign r")
  then obtain ds where d: "digitpart u = Some (ds, [])"
    using assms Cons c by (auto simp: float_exponent_def split: option.splits if_splits)
  obtain u1 where u1: "r = u1 @ u" "\<forall>c \<in> set u1. float_char c"
    using opt_sign_consumes[OF sg] by blast
  obtain u2 where u2: "u = u2 @ []" "\<forall>c \<in> set u2. float_char c"
    using digitpart_consumes[OF d] by blast
  show ?thesis using Cons c u1 u2 by (auto simp: float_char_def)
qed

lemma py_float_chars:
  assumes "py_float s = Some x"
  shows "\<forall>c \<in> set (strip s). float_char c"
proof -
  obtain neg u where sg: "opt_sign (strip s) = (neg, u)" by (cases "opt_sign (strip s)")
  then obtain ip fp r e where m: "float_mantissa u = Some (ip, fp, r)"
      and ex: "float_exponent r = Some e"
    using assms by (auto simp: py_float_def split: option.splits)
  obtain u1 where u1: "strip s = u1 @ u" "\<forall>c \<in> set u1. float_char c"
    using opt_sign_consumes[OF sg] by blast
  obtain u2 where u2: "u = u2 @ r" "\<forall>c \<in> set u2. float_char c"
    using float_mantissa_consumes[OF m] by blast
  show ?thesis using u1 u2 float_exponent_chars[OF ex] by auto
qed

lemma lower_char_bracket: "lower_char CHR ''('' = CHR ''(''"
  by (simp add: lower_char_def)

lemma parse_value_bracket:
  assumes "CHR ''('' \<in> set s"
  shows "parse_value s = VStr s"
proof -
  have "CHR ''('' \<in> set (lower s)"
    using assms lower_char_bracket by (force simp: lower_def)
  then have l: "lower s \<noteq> ''true''" "lower s \<noteq> ''false''" by auto
  have "\<not> is_space CHR ''(''" by (simp add: is_space_def)
  then have "CHR ''('' \<in> set (strip s)" using assms strip_keeps by simp
  moreover have "\<not> float_char CHR ''(''" by (simp add: float_char_def is_digit_def)
  ultimately have "py_float s = None" using py_float_chars by (cases "py_float s") auto
  then show ?thesis using l by (simp add: parse_value_def)
qed


section \<open>The percentage pattern\<close>

lemma takeWhile_digits_stop:
  "list_all is_digit d \<Longrightarrow> \<not> is_digit c \<Longrightarrow> takeWhile is_digit (d @ c # r) = d"
  by (induction d) auto

lemma dropWhile_digits_stop:
  "list_all is_digit d \<Longrightarrow> \<not> is_digit c \<Longrightarrow> dropWhile is_digit (d @ c # r) = c # r"
  by (induction d) auto

lemma takeWhile_digits_all: "list_all is_digit d \<Longrightarrow> takeWhile is_digit d = d"
  by (induction d) auto

lemma dropWhile_digits_all: "list_all is_digit d \<Longrightarrow> dropWhile is_digit d = []"
  by (induction d) auto

lemma list_all_takeWhile: "list_all P (takeWhile P xs)"
  by (induction xs) auto

text \<open>The two shapes of a percentage literal.\<close>

lemma pct_literal_cases:
  "pct_literal g \<longleftrightarrow>
     digits g \<or> (\<exists>d1 d2. g = d1 @ CHR ''.'' # d2 \<and> digits d1 \<and> digits d2)"
proof
  assume a: "pct_literal g"
  show "digits g \<or> (\<exists>d1 d2. g = d1 @ CHR ''.'' # d2 \<and> digits d1 \<and> digits d2)"
  proof (cases "dropWhile is_digit g")
    case Nil
    show ?thesis using a by (simp add: pct_literal_def Nil)
  next
    case (Cons c d2)
    have "c = CHR ''.''" "digits (takeWhile is_digit g)" "digits d2"
      using a by (simp_all add: pct_literal_def Cons)
    moreover have "g = takeWhile is_digit g @ c # d2"
      using Cons takeWhile_dropWhile_id[of is_digit g] by simp
    ultimately show ?thesis by blast
  qed
next
  assume "digits g \<or> (\<exists>d1 d2. g = d1 @ CHR ''.'' # d2 \<and> digits d1 \<and> digits d2)"
  then show "pct_literal g"
  proof
    assume "digits g"
    then show ?thesis by (simp add: pct_literal_def digits_def dropWhile_digits_all)
  next
    assume "\<exists>d1 d2. g = d1 @ CHR ''.'' # d2 \<and> digits d1 \<and> digits d2"
    then obtain d1 d2 where g: "g = d1 @ CHR ''.'' # d2" "digits d1" "digits d2" by blast
    have nd: "\<not> is_digit CHR ''.''" by (simp add: is_digit_def)
    show ?thesis
      using g nd by (simp add: pct_literal_def digits_def takeWhile_digits_stop dropWhile_digits_stop)
  qed
qed

lemma py_float_pct_literal:
  assumes "pct_literal g"
  shows "py_float g = Some (pct_value g)"
proof -
  have nd: "\<not> is_digit CHR ''.''" by (simp add: is_digit_def)
  from assms consider "digits g"
    | d1 d2 where "g = d1 @ CHR ''.'' # d2" "digits d1" "digits d2"
    using pct_literal_cases by blast
  then show ?thesis
  proof cases
    case 1
    then have "py_float g = Some (real (nat_of_digits g))"
      using py_float_digits by (simp add: digits_def list_all_iff)
    moreover have "pct_value g = real (nat_of_digits g)"
      using 1 by (simp add: pct_value_def digits_def takeWhile_digits_all dropWhile_digits_all
          decimal_value_def nat_of_digits_def)
    ultimately show ?thesis by simp
  next
    case 2
    then have "py_float g = Some (decimal_value d1 d2 0)"
      using py_float_digits_point by (simp add: digits_def list_all_iff)
    moreover have "pct_value g = decimal_value d1 d2 0"
      using 2 nd by (simp add: pct_value_def digits_def takeWhile_digits_stop dropWhile_digits_stop)
    ultimately show ?thesis by simp
  qed
qed

lemma match_pct_Some:
  assumes "match_pct s = Some g"
  shows "pct_literal g \<and> (\<exists>post. s = ''('' @ g @ ''%)'' @ post)"
proof -
  obtain r where s: "s = CHR ''('' # r"
    using assms by (cases s) (auto simp: match_pct_def split: if_splits)
  let ?d1 = "takeWhile is_digit r" and ?r1 = "dropWhile is_digit r"
  have r: "r = ?d1 @ ?r1" by simp
  have d1: "digits ?d1"
    using assms s by (auto simp: match_pct_def Let_def digits_def list_all_takeWhile split: if_splits)
  show ?thesis
  proof (cases "take 2 ?r1 = ''%)''")
    case True
    then have g: "g = ?d1" using assms s d1 by (simp add: match_pct_def Let_def digits_def)
    have "?r1 = ''%)'' @ drop 2 ?r1" using True by (metis append_take_drop_id)
    then have "s = ''('' @ g @ ''%)'' @ drop 2 ?r1" using s g r by (metis append_Cons append_Nil)
    moreover have "pct_literal g" using d1 g pct_literal_cases by simp
    ultimately show ?thesis by blast
  next
    case False
    then have m: "(case ?r1 of
                     [] \<Rightarrow> None
                   | x # r2 \<Rightarrow>
                       if x = CHR ''.'' then
                         (let d2 = takeWhile is_digit r2; r3 = dropWhile is_digit r2
                          in if d2 \<noteq> [] \<and> take 2 r3 = ''%)''
                             then Some (?d1 @ ''.'' @ d2) else None)
                       else None) = Some g"
      using assms s d1 by (simp add: match_pct_def Let_def digits_def)
    then obtain x r2 where xr: "?r1 = x # r2"
      by (cases ?r1) (simp_all del: dropWhile_eq_Nil_conv)
    have x: "x = CHR ''.''" using m by (simp add: xr split: if_splits)
    have r1: "?r1 = CHR ''.'' # r2" using xr x by simp
    let ?d2 = "takeWhile is_digit r2" and ?r3 = "dropWhile is_digit r2"
    have ok: "?d2 \<noteq> [] \<and> take 2 ?r3 = ''%)''" and g: "g = ?d1 @ CHR ''.'' # ?d2"
      using m by (auto simp add: r1 Let_def split: if_splits)
    have "?r3 = ''%)'' @ drop 2 ?r3" using ok by (metis append_take_drop_id)
    moreover have "r2 = ?d2 @ ?r3" by simp
    ultimately have "r = ?d1 @ CHR ''.'' # ?d2 @ ''%)'' @ drop 2 ?r3"
      using r r1 by metis
    then have "s = ''('' @ g @ ''%)'' @ drop 2 ?r3" using s g by simp
    moreover have "digits ?d2" using ok by (simp add: digits_def list_all_takeWhile)
    then have "pct_literal g" using d1 g pct_literal_cases by blast
    ultimately show ?thesis by blast
  qed
qed

lemma match_pct_literal:
  assumes "pct_literal g"
  shows "match_pct (''('' @ g @ ''%)'' @ post) = Some g"
proof -
  have nd: "\<not> is_digit CHR ''.''" "\<not> is_digit CHR ''%''" by (simp_all add: is_digit_def)
  from assms consider "digits g"
    | d1 d2 where "g = d1 @ CHR ''.'' # d2" "digits d1" "digits d2"
    using pct_literal_cases by blast
  then show ?thesis
  proof cases
    case 1
    then show ?thesis
      using nd by (simp add: match_pct_def digits_def takeWhile_digits_stop dropWhile_digits_stop)
  next
    case 2
    then show ?thesis
      using nd by (simp add: match_pct_def digits_def takeWhile_digits_stop dropWhile_digits_stop)
  qed
qed

lemma search_pct_Some:
  "search_pct s = Some g \<Longrightarrow> pct_literal g \<and> (\<exists>pre post. s = pre @ ''('' @ g @ ''%)'' @ post)"
proof (induction s)
  case Nil
  then show ?case by simp
next
  case (Cons c cs)
  show ?case
  proof (cases "match_pct (c # cs)")
    case None
    then have "search_pct cs = Some g" using Cons.prems by simp
    then obtain pre post where "pct_literal g" "cs = pre @ ''('' @ g @ ''%)'' @ post"
      using Cons.IH by blast
    then have "pct_literal g \<and> c # cs = (c # pre) @ ''('' @ g @ ''%)'' @ post" by simp
    then show ?thesis by blast
  next
    case (Some g')
    then have "g' = g" using Cons.prems by simp
    then obtain post where "pct_literal g" "c # cs = [] @ ''('' @ g @ ''%)'' @ post"
      using match_pct_Some Some by fastforce
    then show ?thesis by blast
  qed
qed

lemma search_pct_contains:
  "pct_literal g \<Longrightarrow> search_pct (pre @ ''('' @ g @ ''%)'' @ post) \<noteq> None"
proof (induction pre)
  case Nil
  then show ?case using match_pct_literal[of g post] by simp
next
  case (Cons c pre)
  then show ?case by (simp split: option.splits)
qed

lemma search_pct_None_iff:
  "search_pct s = None \<longleftrightarrow>
     \<not> (\<exists>pre g post. s = pre @ ''('' @ g @ ''%)'' @ post \<and> pct_literal g)"
proof
  assume "search_pct s = None"
  then show "\<not> (\<exists>pre g post. s = pre @ ''('' @ g @ ''%)'' @ post \<and> pct_literal g)"
    using search_pct_contains by blast
next
  assume a: "\<not> (\<exists>pre g post. s = pre @ ''('' @ g @ ''%)'' @ post \<and> pct_literal g)"
  show "search_pct s = None"
  proof (cases "search_pct s")
    case None
    then show ?thesis .
  next
    case (Some g)
    then show ?thesis using search_pct_Some a by blast
  qed
qed


section \<open>Properties of the scorer\<close>

lemmas score_defs = calculate_score_def score_metric_def float_of_val_def
  calculate_interpolated_bonus_def py_div_def round2_def update_conv'

text \<open>
  C1. With the tiers \<open>[(0,0),(10,5),(20,10)]\<close> for a metric, a record value of 5 is awarded
  2.5, a value of 15 is awarded 7.5, a value of 25 the flat bonus 10 of the top tier, and a
  value of -1 is awarded nothing and leaves no breakdown entry.
\<close>

theorem interpolation_examples:
  "calculate_score (AList.update m (VFloat 5) d) [(m, [(0, 0), (10, 5), (20, 10)])]
     = Inr (5 / 2, [Interpolated m 5 (5 / 2)]) \<and>
   calculate_score (AList.update m (VFloat 15) d) [(m, [(0, 0), (10, 5), (20, 10)])]
     = Inr (15 / 2, [Interpolated m 15 (15 / 2)]) \<and>
   calculate_score (AList.update m (VFloat 25) d) [(m, [(0, 0), (10, 5), (20, 10)])]
     = Inr (10, [TopTier m 25 20 10]) \<and>
   calculate_score (AList.update m (VFloat (- 1)) d) [(m, [(0, 0), (10, 5), (20, 10)])]
     = Inr (0, [])"
  by (simp add: score_defs)

lemma calculate_interpolated_bonus_total:
  "\<exists>b. calculate_interpolated_bonus v lb ub b1 b2 = Inr b"
  by (simp add: calculate_interpolated_bonus_def py_div_def)

lemma scan_tiers_total: "\<exists>r. scan_tiers m mv i tiers = Inr r"
proof (induction tiers arbitrary: i)
  case Nil
  then show ?case by simp
next
  case (Cons t tiers)
  obtain target bonus where t: "t = (target, bonus)" by (cases t)
  show ?case
  proof (cases tiers)
    case Nil
    then show ?thesis using t by simp
  next
    case (Cons u us)
    obtain nt nb where u: "u = (nt, nb)" by (cases u)
    obtain b where b: "calculate_interpolated_bonus mv target nt bonus nb = Inr b"
      using calculate_interpolated_bonus_total by blast
    show ?thesis using Cons.IH[of "i + 1"] t u Cons b by auto
  qed
qed

text \<open>
  C2, as the claim states it, fails: with the tiers \<open>[(10,5),(10,8)]\<close> and the value 10 the scan
  does not stop at the first tier, because the value is not below the next target; it reaches
  the last tier and awards its bonus 8, not 5.
\<close>

theorem equal_targets_counterexample:
  "calculate_score [(''m'', VFloat 10)] [(''m'', [(10, 5), (10, 8)])]
     = Inr (8, [TopTier ''m'' 10 10 8]) \<and> (8 :: real) \<noteq> 5"
  by (simp add: score_defs)

text \<open>
  C2, amended. \<open>calculate_interpolated_bonus\<close> called with equal bounds returns the lower
  bonus, and neither it nor the scan of the tiers ever raises, so no division by zero occurs.
  \<open>calculate_score\<close> on two tiers with the same target, for a value equal to that target,
  awards the bonus of the second tier as the flat bonus of the top tier.
\<close>

theorem equal_targets_award_last_tier:
  "calculate_interpolated_bonus v t t b1 b2 = Inr b1 \<and>
   (\<exists>b. calculate_interpolated_bonus v' lb ub lb_bonus ub_bonus = Inr b) \<and>
   (\<exists>r. scan_tiers m mv i tiers = Inr r) \<and>
   calculate_score (AList.update m (VFloat t) d) [(m, [(t, b1), (t, b2)])]
     = Inr (round2 b2, [TopTier m t t b2])"
proof (intro conjI)
  show "calculate_interpolated_bonus v t t b1 b2 = Inr b1"
    by (simp add: calculate_interpolated_bonus_def)
  show "\<exists>b. calculate_interpolated_bonus v' lb ub lb_bonus ub_bonus = Inr b"
    by (rule calculate_interpolated_bonus_total)
  show "\<exists>r. scan_tiers m mv i tiers = Inr r"
    by (rule scan_tiers_total)
  show "calculate_score (AList.update m (VFloat t) d) [(m, [(t, b1), (t, b2)])]
     = Inr (round2 b2, [TopTier m t t b2])"
    by (simp add: calculate_score_def score_metric_def float_of_val_def update_conv')
qed

lemma score_metric_update_other:
  "k \<noteq> m \<Longrightarrow> score_metric (AList.update k v data) m tiers = score_metric data m tiers"
  by (simp add: score_metric_def update_conv')

lemma score_metric_default:
  "map_of data m = None \<Longrightarrow>
   score_metric (AList.update m (VInt 0) data) m tiers = score_metric data m tiers"
  by (simp add: score_metric_def update_conv')

lemma score_loop_default:
  "map_of data m = None \<Longrightarrow>
   score_loop (AList.update m (VInt 0) data) ws s bd = score_loop data ws s bd"
proof (induction ws arbitrary: s bd)
  case Nil
  show ?case by simp
next
  case (Cons w ws)
  obtain metric tiers where w: "w = (metric, tiers)" by (cases w)
  have "score_metric (AList.update m (VInt 0) data) metric tiers = score_metric data metric tiers"
    using Cons.prems score_metric_default score_metric_update_other by (cases "metric = m") auto
  then show ?case using Cons.IH[OF Cons.prems] w by (simp split: sum.splits option.splits)
qed

lemma score_loop_unlisted:
  "k \<notin> fst ` set ws \<Longrightarrow>
   score_loop (AList.update k v data) ws s bd = score_loop data ws s bd"
proof (induction ws arbitrary: s bd)
  case Nil
  show ?case by simp
next
  case (Cons w ws)
  obtain metric tiers where w: "w = (metric, tiers)" by (cases w)
  have "k \<noteq> metric" and rest: "k \<notin> fst ` set ws" using Cons.prems w by auto
  then have "score_metric (AList.update k v data) metric tiers = score_metric data metric tiers"
    by (simp add: score_metric_update_other)
  then show ?case using Cons.IH[OF rest] w by (simp split: sum.splits option.splits)
qed

lemma scan_tiers_below_first:
  assumes "\<forall>t \<in> set tiers. mv < fst t"
  shows "scan_tiers m mv 0 (sort_key fst tiers) = Inr None"
proof (cases "sort_key fst tiers")
  case Nil
  then show ?thesis by simp
next
  case (Cons t rest)
  obtain target bonus where t: "t = (target, bonus)" by (cases t)
  have "t \<in> set (sort_key fst tiers)" using Cons by simp
  then have "t \<in> set tiers" by simp
  then have "mv < target" using assms t by auto
  then show ?thesis using Cons t by simp
qed

lemma score_metric_absent_positive:
  assumes "map_of data m = None" and "\<forall>t \<in> set tiers. 0 < fst t"
  shows "score_metric data m tiers = Inr None"
  using assms scan_tiers_below_first[of tiers 0 m]
  by (simp add: score_metric_def float_of_val_def)

lemma score_loop_delete:
  assumes "map_of data m = None"
    and "\<forall>ts. (m, ts) \<in> set ws \<longrightarrow> (\<forall>t \<in> set ts. 0 < fst t)"
  shows "score_loop data (AList.delete m ws) s bd = score_loop data ws s bd"
  using assms(2)
proof (induction ws arbitrary: s bd)
  case Nil
  show ?case by simp
next
  case (Cons w ws)
  obtain metric tiers where w: "w = (metric, tiers)" by (cases w)
  have rest: "\<forall>ts. (m, ts) \<in> set ws \<longrightarrow> (\<forall>t \<in> set ts. 0 < fst t)"
    using Cons.prems by simp
  show ?case
  proof (cases "metric = m")
    case True
    then have "\<forall>t \<in> set tiers. 0 < fst t" using Cons.prems w by simp
    then have "score_metric data metric tiers = Inr None"
      using assms(1) True score_metric_absent_positive by simp
    then show ?thesis using Cons.IH[OF rest] w True by simp
  next
    case False
    then show ?thesis using Cons.IH[OF rest] w by (simp split: sum.splits option.splits)
  qed
qed

text \<open>
  C3. A metric of the weight table that the record lacks is scored as the value 0: the score
  and the breakdown are those of the record with the metric set to 0. When every target of the
  metric is positive, the metric awards no bonus and no breakdown entry, so that the result is
  that of the weight table without the metric. A field of the record that the weight table
  does not list changes nothing, whatever its value.
\<close>

theorem absent_metric_scored_as_zero:
  "(\<not> has_key data m \<longrightarrow>
      calculate_score data ws = calculate_score (AList.update m (VInt 0) data) ws) \<and>
   (\<not> has_key data m \<and> (\<forall>t \<in> set tiers. 0 < fst t) \<longrightarrow>
      score_metric data m tiers = Inr None) \<and>
   (\<not> has_key data m \<and> (\<forall>ts. (m, ts) \<in> set ws \<longrightarrow> (\<forall>t \<in> set ts. 0 < fst t)) \<longrightarrow>
      calculate_score data ws = calculate_score data (AList.delete m ws)) \<and>
   (\<not> has_key ws k \<longrightarrow>
      calculate_score (AList.update k v data) ws = calculate_score data ws)"
proof (intro conjI impI)
  assume "\<not> has_key data m"
  then show "calculate_score data ws = calculate_score (AList.update m (VInt 0) data) ws"
    by (simp add: has_key_def calculate_score_def score_loop_default)
next
  assume "\<not> has_key data m \<and> (\<forall>t \<in> set tiers. 0 < fst t)"
  then show "score_metric data m tiers = Inr None"
    by (simp add: has_key_def score_metric_absent_positive)
next
  assume "\<not> has_key data m \<and> (\<forall>ts. (m, ts) \<in> set ws \<longrightarrow> (\<forall>t \<in> set ts. 0 < fst t))"
  then show "calculate_score data ws = calculate_score data (AList.delete m ws)"
    using score_loop_delete[of data m ws 0 "[]"] by (simp add: has_key_def calculate_score_def)
next
  assume "\<not> has_key ws k"
  then have "k \<notin> fst ` set ws" by (simp add: has_key_def map_of_eq_None_iff)
  then show "calculate_score (AList.update k v data) ws = calculate_score data ws"
    by (simp add: calculate_score_def score_loop_unlisted)
qed

theorem absent_metric_scored_as_zero_witness:
  "\<not> has_key [(''Kills'', VFloat 15)] ''Deaths'' \<and>
   0 < fst (5 :: real, 1 :: real) \<and> 0 < fst (10 :: real, 2 :: real) \<and>
   \<not> has_key [(''Kills'', [(0, 0), (10, 5), (20, 10)]), (''Deaths'', [(5 :: real, 1 :: real), (10, 2)])]
        ''Map'' \<and>
   calculate_score [(''Kills'', VFloat 15)]
      [(''Kills'', [(0, 0), (10, 5), (20, 10)]), (''Deaths'', [(5, 1), (10, 2)])]
    = calculate_score (AList.update ''Deaths'' (VInt 0) [(''Kills'', VFloat 15)])
      [(''Kills'', [(0, 0), (10, 5), (20, 10)]), (''Deaths'', [(5, 1), (10, 2)])] \<and>
   score_metric [(''Kills'', VFloat 15)] ''Deaths'' [(5, 1), (10, 2)] = Inr None \<and>
   calculate_score [(''Kills'', VFloat 15)]
      [(''Kills'', [(0, 0), (10, 5), (20, 10)]), (''Deaths'', [(5, 1), (10, 2)])]
    = calculate_score [(''Kills'', VFloat 15)]
      (AList.delete ''Deaths''
         [(''Kills'', [(0, 0), (10, 5), (20, 10)]), (''Deaths'', [(5, 1), (10, 2)])]) \<and>
   calculate_score (AList.update ''Map'' (VStr ''Ascent'') [(''Kills'', VFloat 15)])
      [(''Kills'', [(0, 0), (10, 5), (20, 10)]), (''Deaths'', [(5, 1), (10, 2)])]
    = calculate_score [(''Kills'', VFloat 15)]
      [(''Kills'', [(0, 0), (10, 5), (20, 10)]), (''Deaths'', [(5, 1), (10, 2)])]"
proof -
  let ?d = "[(''Kills'', VFloat 15)]"
  let ?ts = "[(5 :: real, 1 :: real), (10, 2)]"
  let ?ws = "[(''Kills'', [(0, 0), (10, 5), (20, 10)]), (''Deaths'', ?ts)]"
  have h1: "\<not> has_key ?d ''Deaths''" by (simp add: has_key_def)
  have h2: "\<forall>t \<in> set ?ts. 0 < fst t" by simp
  have h3: "\<forall>ts. (''Deaths'', ts) \<in> set ?ws \<longrightarrow> (\<forall>t \<in> set ts. 0 < fst t)" by simp
  have h4: "\<not> has_key ?ws ''Map''" by (simp add: has_key_def)
  have h5: "0 < fst (5 :: real, 1 :: real) \<and> 0 < fst (10 :: real, 2 :: real)" by simp
  show ?thesis
    using absent_metric_scored_as_zero[of ?d "''Deaths''" ?ws ?ts "''Map''" "VStr ''Ascent''"]
      h1 h2 h3 h4 h5
    by blast
qed

end
